theory Spec2Isabelle
  imports Main
begin

section \<open>Exceptions\<close>

text \<open>
  The source throws one exception type, \<^verbatim>\<open>ompl::Exception\<close>, built from a message.
  The apostrophe of the messages is written \<open>CHR 0x27\<close>.
\<close>

datatype error = Exception string

definition msg_in_use :: "string \<Rightarrow> string" where
  "msg_in_use name =
     ''Control manifold name '' @ [CHR 0x27] @ name @ [CHR 0x27] @
     '' already in use. Manifold names must be unique.''"

definition msg_no_such :: "string \<Rightarrow> string" where
  "msg_no_such name =
     ''No control manifold with name '' @ [CHR 0x27] @ name @ [CHR 0x27] @ '' exists.''"

text \<open>The error kinds of the specification, as the exceptions the source throws.\<close>

definition DuplicateNameError :: "string \<Rightarrow> error" where
  "DuplicateNameError name = Exception (msg_in_use name)"

definition UnknownNameError :: "string \<Rightarrow> error" where
  "UnknownNameError name = Exception (msg_no_such name)"

definition LockedManifoldError :: error where
  "LockedManifoldError =
     Exception ''This manifold is locked. No further components can be added''"

definition UnconfiguredPropagationError :: error where
  "UnconfiguredPropagationError =
     Exception (''State propagation routine is not set for control manifold. '' @
       ''Either set this routine or provide a different implementation in an inherited class.'')"

section \<open>The name registry\<close>

text \<open>
  \<^verbatim>\<open>namesList(op, name1, name2)\<close> works on the function-local static set \<open>used\<close>
  under a mutex. The model takes the set and returns the exception thrown, if any, with
  the set as the call leaves it. An \<open>op\<close> other than 1, 2, 3 (and \<open>op = 3\<close> with
  equal names) falls through every branch.
\<close>

definition namesList ::
  "int \<Rightarrow> string \<Rightarrow> string \<Rightarrow> string set \<Rightarrow> error option \<times> string set" where
  "namesList op name1 name2 used =
     (if op = 1 then
        (if name1 \<in> used then (Some (Exception (msg_in_use name1)), used)
         else (None, insert name1 used))
      else if op = 2 then
        (if name1 \<notin> used then (Some (Exception (msg_no_such name1)), used)
         else (None, used - {name1}))
      else if op = 3 \<and> name1 \<noteq> name2 then
        (if name1 \<notin> used then (Some (Exception (msg_no_such name1)), used)
         else if name2 \<in> used then (Some (Exception (msg_in_use name2)), used)
         else (None, insert name2 (used - {name1})))
      else (None, used))"

section \<open>The base control manifold\<close>

type_synonym addr = nat

text \<open>
  Modelled from the spec: the declarations of \<^verbatim>\<open>Control\<close>, \<^verbatim>\<open>CompoundControl\<close>,
  \<^verbatim>\<open>base::State\<close> and \<^verbatim>\<open>base::CompoundState\<close> are in headers that are not among
  the sources. A control is an opaque value of its manifold; a compound control owns an
  array of child controls, one for each child manifold, in the order of the children.

  A \<^verbatim>\<open>Control*\<close> points to a control of some leaf manifold, an object in the store,
  or to a \<^verbatim>\<open>CompoundControl\<close>, whose member \<^verbatim>\<open>components\<close> is an array of
  \<^verbatim>\<open>Control*\<close>; likewise \<^verbatim>\<open>base::State*\<close> and \<^verbatim>\<open>base::CompoundState\<close>.
  The \<^verbatim>\<open>static_cast\<close> to the compound type is the selector, which says nothing about
  a leaf. The array is written by \<^verbatim>\<open>allocControl\<close> alone; the objects that its entries
  point to live in the store.
\<close>

datatype Control = LeafControl addr | CompoundControl (components: "Control list")

datatype State = LeafState addr | CompoundState (state_components: "State list")

text \<open>
  Modelled from the spec: \<^verbatim>\<open>base::StateManifold\<close> is not among the sources. Of the
  bound state manifold the source reads only \<^verbatim>\<open>getName()\<close>.
\<close>

record StateManifold =
  stateManifoldName :: string

text \<open>
  \<^verbatim>\<open>StatePropagationFn\<close> is a \<^verbatim>\<open>boost::function\<close> over
  \<^verbatim>\<open>(const State*, const Control*, double, State*)\<close>: it works on the program's store
  \<open>'h\<close> and may throw. An empty \<^verbatim>\<open>boost::function\<close> is \<open>None\<close>. The duration
  is only passed on, so its type \<open>'d\<close> is left open.
\<close>

type_synonym ('h, 'd) StatePropagationFn =
  "State \<Rightarrow> Control \<Rightarrow> 'd \<Rightarrow> State \<Rightarrow> 'h \<Rightarrow> error option \<times> 'h"

text \<open>
  Modelled from the spec: the declaration of the class is in a header that is not among
  the sources; the members are those its member functions read and write. A data member
  \<^verbatim>\<open>x_\<close> of the source is the field \<open>x_m\<close> (an identifier cannot end with an
  underscore here).
\<close>

record ('h, 'd) ControlManifold =
  stateManifold_m :: StateManifold
  name_m :: string
  statePropagation_m :: "('h, 'd) StatePropagationFn option"

text \<open>
  The constructor: the name is set and registered; when \<^verbatim>\<open>namesList\<close> throws, no
  object comes to exist. The members of a derived class, \<open>derived\<close>, are initialised
  after the base.
\<close>

definition ControlManifold_ctor ::
  "StateManifold \<Rightarrow> 'z \<Rightarrow> string set \<Rightarrow>
     (error + ('h, 'd, 'z) ControlManifold_scheme) \<times> string set" where
  "ControlManifold_ctor stateManifold derived used =
     (let name = ''Control['' @ stateManifoldName stateManifold @ '']'' in
      case namesList 1 name [] used of
        (Some e, used') \<Rightarrow> (Inl e, used')
      | (None, used') \<Rightarrow>
          (Inr \<lparr>stateManifold_m = stateManifold, name_m = name, statePropagation_m = None,
             \<dots> = derived\<rparr>,
           used'))"

definition ControlManifold_dtor ::
  "('h, 'd, 'z) ControlManifold_scheme \<Rightarrow> string set \<Rightarrow> error option \<times> string set" where
  "ControlManifold_dtor m used = namesList 2 (name_m m) [] used"

definition getName :: "('h, 'd, 'z) ControlManifold_scheme \<Rightarrow> string" where
  "getName m = name_m m"

text \<open>\<^verbatim>\<open>setName\<close>: the assignment to \<^verbatim>\<open>name_\<close> is not reached when the registry throws.\<close>

definition setName ::
  "string \<Rightarrow> ('h, 'd, 'z) ControlManifold_scheme \<Rightarrow> string set \<Rightarrow>
     error option \<times> ('h, 'd, 'z) ControlManifold_scheme \<times> string set" where
  "setName name m used =
     (case namesList 3 (name_m m) name used of
        (Some e, used') \<Rightarrow> (Some e, m, used')
      | (None, used') \<Rightarrow> (None, m\<lparr>name_m := name\<rparr>, used'))"

definition ControlManifold_canPropagateBackward ::
  "('h, 'd, 'z) ControlManifold_scheme \<Rightarrow> bool" where
  "ControlManifold_canPropagateBackward m = True"

text \<open>A \<^verbatim>\<open>double*\<close> that the caller tests against \<^verbatim>\<open>NULL\<close> is an \<open>addr option\<close>.\<close>

definition ControlManifold_getValueAddressAtIndex ::
  "('h, 'd, 'z) ControlManifold_scheme \<Rightarrow> Control \<Rightarrow> nat \<Rightarrow> addr option" where
  "ControlManifold_getValueAddressAtIndex m control index = None"

definition ControlManifold_propagate ::
  "('h, 'd, 'z) ControlManifold_scheme \<Rightarrow> State \<Rightarrow> Control \<Rightarrow> 'd \<Rightarrow> State \<Rightarrow> 'h \<Rightarrow>
     error option \<times> 'h" where
  "ControlManifold_propagate m state control duration result h =
     (case statePropagation_m m of
        Some fn \<Rightarrow> fn state control duration result h
      | None \<Rightarrow>
          (Some (Exception (''State propagation routine is not set for control manifold. '' @
             ''Either set this routine or provide a different implementation in an inherited class.'')),
           h))"

definition setPropagationFunction ::
  "('h, 'd) StatePropagationFn option \<Rightarrow> ('h, 'd, 'z) ControlManifold_scheme \<Rightarrow>
     ('h, 'd, 'z) ControlManifold_scheme" where
  "setPropagationFunction fn m = m\<lparr>statePropagation_m := fn\<rparr>"

section \<open>Lifetimes of manifolds\<close>

text \<open>
  A run of the program constructs, destroys and renames manifolds. The world holds the
  registry and the live objects by address. A call the program cannot make (a constructor
  on an address that holds a live object, a method or destructor on an address that holds
  none) leaves the world as it is. A destructor ends the object's life also when
  \<^verbatim>\<open>namesList\<close> throws in it.
\<close>

record ('h, 'd, 'z) world =
  used :: "string set"
  live :: "addr \<rightharpoonup> ('h, 'd, 'z) ControlManifold_scheme"

datatype 'z call = Construct addr StateManifold 'z | Destroy addr | SetName addr string

definition init :: "('h, 'd, 'z) world" where
  "init = \<lparr>used = {}, live = Map.empty\<rparr>"

fun exec :: "'z call \<Rightarrow> ('h, 'd, 'z) world \<Rightarrow> ('h, 'd, 'z) world" where
  "exec (Construct a sm derived) w =
     (case live w a of
        Some m \<Rightarrow> w
      | None \<Rightarrow>
          (case ControlManifold_ctor sm derived (used w) of
             (Inl e, u) \<Rightarrow> w\<lparr>used := u\<rparr>
           | (Inr m, u) \<Rightarrow> w\<lparr>used := u, live := (live w)(a \<mapsto> m)\<rparr>))"
| "exec (Destroy a) w =
     (case live w a of
        None \<Rightarrow> w
      | Some m \<Rightarrow>
          (case ControlManifold_dtor m (used w) of
             (r, u) \<Rightarrow> w\<lparr>used := u, live := (live w)(a := None)\<rparr>))"
| "exec (SetName a name) w =
     (case live w a of
        None \<Rightarrow> w
      | Some m \<Rightarrow>
          (case setName name m (used w) of
             (r, m', u) \<Rightarrow> w\<lparr>used := u, live := (live w)(a \<mapsto> m')\<rparr>))"

definition run :: "'z call list \<Rightarrow> ('h, 'd, 'z) world" where
  "run calls = fold exec calls init"

text \<open>The registry holds exactly the names of the live manifolds, each of them once.\<close>

definition registry_inv :: "('h, 'd, 'z) world \<Rightarrow> bool" where
  "registry_inv w \<longleftrightarrow>
     (\<forall>n. n \<in> used w \<longleftrightarrow> (\<exists>a m. live w a = Some m \<and> name_m m = n)) \<and>
     (\<forall>a b m m'. live w a = Some m \<and> live w b = Some m' \<and> name_m m = name_m m' \<longrightarrow> a = b)"

section \<open>The compound control manifold\<close>

text \<open>
  Modelled from the spec: the declaration of \<^verbatim>\<open>CompoundControlManifold\<close> and the
  classes of the components are not among the sources. A component is reached through a
  \<^verbatim>\<open>ControlManifoldPtr\<close> and its virtual methods, whose bodies belong to those classes:
  each is a function on the store, taken as it comes. The allocation and the propagation
  of a component may throw. \<^verbatim>\<open>componentCount_\<close> is an \<^verbatim>\<open>unsigned int\<close> that holds
  \<^verbatim>\<open>components_.size()\<close>.
\<close>

record ('h, 'd) ControlManifoldPtr =
  v_allocControl :: "'h \<Rightarrow> (error + Control) \<times> 'h"
  v_freeControl :: "Control \<Rightarrow> 'h \<Rightarrow> 'h"
  v_copyControl :: "Control \<Rightarrow> Control \<Rightarrow> 'h \<Rightarrow> 'h"
  v_equalControls :: "Control \<Rightarrow> Control \<Rightarrow> 'h \<Rightarrow> bool"
  v_propagate :: "('h, 'd) StatePropagationFn"
  v_canPropagateBackward :: "'h \<Rightarrow> bool"
  v_getValueAddressAtIndex :: "Control \<Rightarrow> nat \<Rightarrow> 'h \<Rightarrow> addr option"

record ('h, 'd) CompoundControlManifold = "('h, 'd) ControlManifold" +
  components_m :: "('h, 'd) ControlManifoldPtr list"
  componentCount_m :: nat
  locked_m :: bool

definition addSubManifold ::
  "('h, 'd) ControlManifoldPtr \<Rightarrow> ('h, 'd) CompoundControlManifold \<Rightarrow>
     error option \<times> ('h, 'd) CompoundControlManifold" where
  "addSubManifold component m =
     (if locked_m m then
        (Some (Exception ''This manifold is locked. No further components can be added''), m)
      else
        (let m' = m\<lparr>components_m := components_m m @ [component]\<rparr>
         in (None, m'\<lparr>componentCount_m := length (components_m m')\<rparr>)))"

definition getSubManifoldCount :: "('h, 'd) CompoundControlManifold \<Rightarrow> nat" where
  "getSubManifoldCount m = componentCount_m m"

definition lock :: "('h, 'd) CompoundControlManifold \<Rightarrow> ('h, 'd) CompoundControlManifold" where
  "lock m = m\<lparr>locked_m := True\<rparr>"

text \<open>
  Every loop of the class runs \<open>i\<close> from 0 while \<open>i < componentCount_\<close> and reads
  \<^verbatim>\<open>components_[i]\<close>; the loop functions take the current \<open>i\<close>.

  \<^verbatim>\<open>allocControl\<close>: the slots of \<^verbatim>\<open>new Control*[componentCount_]\<close> hold no
  determined value until the loop writes them. An exception of a component leaves the
  function at once: there is no handler. The storage of the compound control itself and
  of its array is not part of the store.
\<close>

function allocControl_loop ::
  "('h, 'd) CompoundControlManifold \<Rightarrow> nat \<Rightarrow> Control list \<Rightarrow> 'h \<Rightarrow> (error + Control) \<times> 'h" where
  "allocControl_loop m i comps h =
     (if i < componentCount_m m then
        (case v_allocControl (components_m m ! i) h of
           (Inl e, h') \<Rightarrow> (Inl e, h')
         | (Inr c, h') \<Rightarrow> allocControl_loop m (i + 1) (comps[i := c]) h')
      else (Inr (CompoundControl comps), h))"
  by pat_completeness auto
termination
  by (relation "measure (\<lambda>(m, i, comps, h). componentCount_m m - i)") auto

declare allocControl_loop.simps [simp del]

definition allocControl ::
  "('h, 'd) CompoundControlManifold \<Rightarrow> 'h \<Rightarrow> (error + Control) \<times> 'h" where
  "allocControl m h = allocControl_loop m 0 (replicate (componentCount_m m) undefined) h"

function freeControl_loop ::
  "('h, 'd) CompoundControlManifold \<Rightarrow> Control \<Rightarrow> nat \<Rightarrow> 'h \<Rightarrow> 'h" where
  "freeControl_loop m control i h =
     (if i < componentCount_m m then
        freeControl_loop m control (i + 1)
          (v_freeControl (components_m m ! i) (components control ! i) h)
      else h)"
  by pat_completeness auto
termination
  by (relation "measure (\<lambda>(m, control, i, h). componentCount_m m - i)") auto

declare freeControl_loop.simps [simp del]

definition freeControl :: "('h, 'd) CompoundControlManifold \<Rightarrow> Control \<Rightarrow> 'h \<Rightarrow> 'h" where
  "freeControl m control h = freeControl_loop m control 0 h"

function copyControl_loop ::
  "('h, 'd) CompoundControlManifold \<Rightarrow> Control \<Rightarrow> Control \<Rightarrow> nat \<Rightarrow> 'h \<Rightarrow> 'h" where
  "copyControl_loop m destination source i h =
     (if i < componentCount_m m then
        copyControl_loop m destination source (i + 1)
          (v_copyControl (components_m m ! i)
             (components destination ! i) (components source ! i) h)
      else h)"
  by pat_completeness auto
termination
  by (relation "measure (\<lambda>(m, destination, source, i, h). componentCount_m m - i)") auto

declare copyControl_loop.simps [simp del]

definition copyControl ::
  "('h, 'd) CompoundControlManifold \<Rightarrow> Control \<Rightarrow> Control \<Rightarrow> 'h \<Rightarrow> 'h" where
  "copyControl m destination source h = copyControl_loop m destination source 0 h"

function equalControls_loop ::
  "('h, 'd) CompoundControlManifold \<Rightarrow> Control \<Rightarrow> Control \<Rightarrow> nat \<Rightarrow> 'h \<Rightarrow> bool" where
  "equalControls_loop m control1 control2 i h =
     (if i < componentCount_m m then
        (if \<not> v_equalControls (components_m m ! i)
                (components control1 ! i) (components control2 ! i) h
         then False
         else equalControls_loop m control1 control2 (i + 1) h)
      else True)"
  by pat_completeness auto
termination
  by (relation "measure (\<lambda>(m, control1, control2, i, h). componentCount_m m - i)") auto

declare equalControls_loop.simps [simp del]

definition equalControls ::
  "('h, 'd) CompoundControlManifold \<Rightarrow> Control \<Rightarrow> Control \<Rightarrow> 'h \<Rightarrow> bool" where
  "equalControls m control1 control2 h = equalControls_loop m control1 control2 0 h"

function propagate_loop ::
  "('h, 'd) CompoundControlManifold \<Rightarrow> State \<Rightarrow> Control \<Rightarrow> 'd \<Rightarrow> State \<Rightarrow> nat \<Rightarrow> 'h \<Rightarrow>
     error option \<times> 'h" where
  "propagate_loop m state control duration result i h =
     (if i < componentCount_m m then
        (case v_propagate (components_m m ! i) (state_components state ! i)
                (components control ! i) duration (state_components result ! i) h of
           (Some e, h') \<Rightarrow> (Some e, h')
         | (None, h') \<Rightarrow> propagate_loop m state control duration result (i + 1) h')
      else (None, h))"
  by pat_completeness auto
termination
  by (relation "measure (\<lambda>(m, state, control, duration, result, i, h). componentCount_m m - i)")
    auto

declare propagate_loop.simps [simp del]

definition propagate ::
  "('h, 'd) CompoundControlManifold \<Rightarrow> State \<Rightarrow> Control \<Rightarrow> 'd \<Rightarrow> State \<Rightarrow> 'h \<Rightarrow>
     error option \<times> 'h" where
  "propagate m state control duration result h =
     (case statePropagation_m m of
        Some fn \<Rightarrow> fn state control duration result h
      | None \<Rightarrow> propagate_loop m state control duration result 0 h)"

function canPropagateBackward_loop ::
  "('h, 'd) CompoundControlManifold \<Rightarrow> nat \<Rightarrow> 'h \<Rightarrow> bool" where
  "canPropagateBackward_loop m i h =
     (if i < componentCount_m m then
        (if \<not> v_canPropagateBackward (components_m m ! i) h then False
         else canPropagateBackward_loop m (i + 1) h)
      else True)"
  by pat_completeness auto
termination
  by (relation "measure (\<lambda>(m, i, h). componentCount_m m - i)") auto

declare canPropagateBackward_loop.simps [simp del]

definition canPropagateBackward :: "('h, 'd) CompoundControlManifold \<Rightarrow> 'h \<Rightarrow> bool" where
  "canPropagateBackward m h = canPropagateBackward_loop m 0 h"

text \<open>
  \<^verbatim>\<open>getValueAddressAtIndex\<close>: the inner loop over \<open>j\<close> either returns from the
  function (\<open>Inl va\<close>) or ends, by \<^verbatim>\<open>break\<close> or by \<open>j > index\<close>, with the counter
  \<open>idx\<close> (\<open>Inr idx\<close>). The counters are \<^verbatim>\<open>unsigned int\<close>; \<open>idx\<close> and \<open>j\<close> are
  incremented only while \<open>idx < index\<close> and \<open>j \<le> idx\<close>, so they never wrap.
\<close>

function getValueAddressAtIndex_inner ::
  "('h, 'd) CompoundControlManifold \<Rightarrow> Control \<Rightarrow> nat \<Rightarrow> 'h \<Rightarrow> nat \<Rightarrow> nat \<Rightarrow> nat \<Rightarrow> addr + nat" where
  "getValueAddressAtIndex_inner m control index h i j idx =
     (if j \<le> index then
        (case v_getValueAddressAtIndex (components_m m ! i) (components control ! i) j h of
           Some va \<Rightarrow>
             (if idx = index then Inl va
              else getValueAddressAtIndex_inner m control index h i (j + 1) (idx + 1))
         | None \<Rightarrow> Inr idx)
      else Inr idx)"
  by pat_completeness auto
termination
  by (relation "measure (\<lambda>(m, control, index, h, i, j, idx). index + 1 - j)") auto

declare getValueAddressAtIndex_inner.simps [simp del]

function getValueAddressAtIndex_outer ::
  "('h, 'd) CompoundControlManifold \<Rightarrow> Control \<Rightarrow> nat \<Rightarrow> 'h \<Rightarrow> nat \<Rightarrow> nat \<Rightarrow> addr option" where
  "getValueAddressAtIndex_outer m control index h i idx =
     (if i < componentCount_m m then
        (case getValueAddressAtIndex_inner m control index h i 0 idx of
           Inl va \<Rightarrow> Some va
         | Inr idx' \<Rightarrow> getValueAddressAtIndex_outer m control index h (i + 1) idx')
      else None)"
  by pat_completeness auto
termination
  by (relation "measure (\<lambda>(m, control, index, h, i, idx). componentCount_m m - i)") auto

declare getValueAddressAtIndex_outer.simps [simp del]

definition getValueAddressAtIndex ::
  "('h, 'd) CompoundControlManifold \<Rightarrow> Control \<Rightarrow> nat \<Rightarrow> 'h \<Rightarrow> addr option" where
  "getValueAddressAtIndex m control index h = getValueAddressAtIndex_outer m control index h 0 0"

text \<open>
  The calls that change a compound manifold, run one after the other from a state of the
  manifold and the registry; a call that throws leaves what it had done so far.
\<close>

datatype ('h, 'd) compound_call =
  AddSubManifold "('h, 'd) ControlManifoldPtr"
  | Lock
  | SetPropagationFunction "('h, 'd) StatePropagationFn option"
  | Rename string

fun compound_exec ::
  "('h, 'd) compound_call \<Rightarrow> ('h, 'd) CompoundControlManifold \<times> string set \<Rightarrow>
     ('h, 'd) CompoundControlManifold \<times> string set" where
  "compound_exec (AddSubManifold component) (m, u) = (snd (addSubManifold component m), u)"
| "compound_exec Lock (m, u) = (lock m, u)"
| "compound_exec (SetPropagationFunction fn) (m, u) = (setPropagationFunction fn m, u)"
| "compound_exec (Rename newName) (m, u) =
     (case setName newName m u of (r, m', u') \<Rightarrow> (m', u'))"

section \<open>What the specification describes\<close>

text \<open>
  Propagation without an override, in the words of the specification: for each index
  \<open>i\<close> from 0 up to the number of children, in order, the \<open>i\<close>-th sub-state,
  sub-control and sub-result go through \<open>children[i]\<close>; a failure ends it.
\<close>

definition propagate_in_order ::
  "('h, 'd) CompoundControlManifold \<Rightarrow> State \<Rightarrow> Control \<Rightarrow> 'd \<Rightarrow> State \<Rightarrow> 'h \<Rightarrow>
     error option \<times> 'h" where
  "propagate_in_order m state control duration result h =
     fold (\<lambda>i (r, h').
            case r of
              Some e \<Rightarrow> (Some e, h')
            | None \<Rightarrow>
                v_propagate (components_m m ! i) (state_components state ! i)
                  (components control ! i) duration (state_components result ! i) h')
       [0..<componentCount_m m] (None, h)"

text \<open>
  Allocation with the cleanup the specification asks for: when the allocation of child
  \<open>i\<close> fails, the slots \<open>0..i-1\<close> are freed through their children before the
  failure goes on to the caller.
\<close>

function allocControl_cleanup_loop ::
  "('h, 'd) CompoundControlManifold \<Rightarrow> nat \<Rightarrow> Control list \<Rightarrow> 'h \<Rightarrow> (error + Control) \<times> 'h" where
  "allocControl_cleanup_loop m i comps h =
     (if i < componentCount_m m then
        (case v_allocControl (components_m m ! i) h of
           (Inl e, h') \<Rightarrow>
             (Inl e, fold (\<lambda>j. v_freeControl (components_m m ! j) (comps ! j)) [0..<i] h')
         | (Inr c, h') \<Rightarrow> allocControl_cleanup_loop m (i + 1) (comps[i := c]) h')
      else (Inr (CompoundControl comps), h))"
  by pat_completeness auto
termination
  by (relation "measure (\<lambda>(m, i, comps, h). componentCount_m m - i)") auto

declare allocControl_cleanup_loop.simps [simp del]

definition allocControl_cleanup ::
  "('h, 'd) CompoundControlManifold \<Rightarrow> 'h \<Rightarrow> (error + Control) \<times> 'h" where
  "allocControl_cleanup m h =
     allocControl_cleanup_loop m 0 (replicate (componentCount_m m) undefined) h"

text \<open>
  The store after the first \<open>i\<close> calls of the children's \<^verbatim>\<open>allocControl\<close>, and what
  the call for slot \<open>i\<close> returns there.
\<close>

primrec alloc_store :: "('h, 'd) CompoundControlManifold \<Rightarrow> 'h \<Rightarrow> nat \<Rightarrow> 'h" where
  "alloc_store m h 0 = h"
| "alloc_store m h (Suc i) = snd (v_allocControl (components_m m ! i) (alloc_store m h i))"

definition alloc_slot :: "('h, 'd) CompoundControlManifold \<Rightarrow> 'h \<Rightarrow> nat \<Rightarrow> error + Control" where
  "alloc_slot m h i = fst (v_allocControl (components_m m ! i) (alloc_store m h i))"

text \<open>
  The local value slot \<open>j\<close> of child \<open>i\<close> for a compound control, and the children's
  slots in the flattened order: child by child, each child's slots \<open>0..n i - 1\<close>.
\<close>

definition child_slot ::
  "('h, 'd) CompoundControlManifold \<Rightarrow> Control \<Rightarrow> 'h \<Rightarrow> nat \<Rightarrow> nat \<Rightarrow> addr option" where
  "child_slot m control h i j =
     v_getValueAddressAtIndex (components_m m ! i) (components control ! i) j h"

definition flat_slots ::
  "('h, 'd) CompoundControlManifold \<Rightarrow> Control \<Rightarrow> 'h \<Rightarrow> (nat \<Rightarrow> nat) \<Rightarrow> addr option list" where
  "flat_slots m control h n =
     concat (map (\<lambda>i. map (child_slot m control h i) [0..<n i]) [0..<componentCount_m m])"

section \<open>Example manifolds\<close>

text \<open>
  A store with a break pointer, the set of allocated addresses and integer cells. A leaf
  manifold of \<open>n\<close> values keeps a control in \<open>n\<close> consecutive cells and a state in one
  cell; it propagates by adding \<open>duration\<close> times the control's first value.
\<close>

record store =
  brk :: addr
  allocated :: "addr set"
  cell :: "addr \<Rightarrow> int"

definition leaf :: "nat \<Rightarrow> bool \<Rightarrow> (store, int) ControlManifoldPtr" where
  "leaf n reversible =
     \<lparr>v_allocControl = (\<lambda>h. (Inr (LeafControl (brk h)),
          h\<lparr>brk := brk h + n, allocated := insert (brk h) (allocated h)\<rparr>)),
      v_freeControl = (\<lambda>c h. case c of
          LeafControl a \<Rightarrow> h\<lparr>allocated := allocated h - {a}\<rparr>
        | CompoundControl cs \<Rightarrow> h),
      v_copyControl = (\<lambda>d s h. case (d, s) of
          (LeafControl a, LeafControl b) \<Rightarrow>
            h\<lparr>cell := (\<lambda>x. if a \<le> x \<and> x < a + n then cell h (b + (x - a)) else cell h x)\<rparr>
        | _ \<Rightarrow> h),
      v_equalControls = (\<lambda>c1 c2 h. case (c1, c2) of
          (LeafControl a, LeafControl b) \<Rightarrow> list_all (\<lambda>j. cell h (a + j) = cell h (b + j)) [0..<n]
        | _ \<Rightarrow> False),
      v_propagate = (\<lambda>st c d r h. case (st, c, r) of
          (LeafState s, LeafControl a, LeafState t) \<Rightarrow>
            (None, h\<lparr>cell := (cell h)(t := cell h s + d * cell h a)\<rparr>)
        | _ \<Rightarrow> (Some (Exception ''not a leaf''), h)),
      v_canPropagateBackward = (\<lambda>h. reversible),
      v_getValueAddressAtIndex = (\<lambda>c j h. case c of
          LeafControl a \<Rightarrow> if j < n then Some (a + j) else None
        | CompoundControl cs \<Rightarrow> None)\<rparr>"

text \<open>A leaf whose allocation throws.\<close>

definition failing_leaf :: "(store, int) ControlManifoldPtr" where
  "failing_leaf = (leaf 1 True)\<lparr>v_allocControl := (\<lambda>h. (Inl (Exception ''std::bad_alloc''), h))\<rparr>"

definition compound_of ::
  "(store, int) ControlManifoldPtr list \<Rightarrow> (store, int) CompoundControlManifold" where
  "compound_of cs =
     \<lparr>stateManifold_m = \<lparr>stateManifoldName = ''S''\<rparr>, name_m = ''Control[S]'',
      statePropagation_m = None, components_m = cs, componentCount_m = length cs,
      locked_m = True\<rparr>"

definition store0 :: store where
  "store0 = \<lparr>brk = 0, allocated = {}, cell = (\<lambda>x. 0)\<rparr>"

text \<open>A run of constructions, renames and a destruction, two of which throw.\<close>

definition example_calls :: "unit call list" where
  "example_calls =
     [Construct 0 \<lparr>stateManifoldName = ''A''\<rparr> (),
      Construct 1 \<lparr>stateManifoldName = ''B''\<rparr> (),
      Construct 2 \<lparr>stateManifoldName = ''A''\<rparr> (),
      SetName 1 ''Control[A]'',
      SetName 0 ''X'',
      Construct 3 \<lparr>stateManifoldName = ''A''\<rparr> (),
      Destroy 1]"

text \<open>A compound manifold of two leaves, two of its controls and a store.\<close>

definition example_compound :: "(store, int) CompoundControlManifold" where
  "example_compound = compound_of [leaf 1 True, leaf 2 True]"

definition example_source :: Control where
  "example_source = CompoundControl [LeafControl 0, LeafControl 1]"

definition example_destination :: Control where
  "example_destination = CompoundControl [LeafControl 3, LeafControl 4]"

definition example_store :: store where
  "example_store = \<lparr>brk = 6, allocated = {0, 1, 3, 4}, cell = (\<lambda>x. 0)(0 := 5, 1 := 7, 2 := 9)\<rparr>"

text \<open>A compound manifold whose second child cannot allocate.\<close>

definition leaking_compound :: "(store, int) CompoundControlManifold" where
  "leaking_compound = compound_of [leaf 2 True, failing_leaf]"

text \<open>Three children that expose 2, 0 and 3 value slots, and a control of theirs.\<close>

definition three_leaves :: "(store, int) CompoundControlManifold" where
  "three_leaves = compound_of [leaf 2 True, leaf 0 True, leaf 3 True]"

definition three_control :: Control where
  "three_control = CompoundControl [LeafControl 10, LeafControl 20, LeafControl 30]"

definition three_counts :: "nat \<Rightarrow> nat" where
  "three_counts i = [2, 0, 3] ! i"

section \<open>Properties of the registry and the base manifold\<close>

lemma namesList_replace:
  "namesList 3 oldName newName u =
     (if oldName = newName then (None, u)
      else if oldName \<notin> u then (Some (UnknownNameError oldName), u)
      else if newName \<in> u then (Some (DuplicateNameError newName), u)
      else (None, insert newName (u - {oldName})))"
  by (simp add: namesList_def UnknownNameError_def DuplicateNameError_def)

lemma ctor_cases:
  "ControlManifold_ctor sm z u =
     (let name = ''Control['' @ stateManifoldName sm @ '']'' in
      if name \<in> u then (Inl (DuplicateNameError name), u)
      else (Inr \<lparr>stateManifold_m = sm, name_m = name, statePropagation_m = None, \<dots> = z\<rparr>,
            insert name u))"
  by (simp add: ControlManifold_ctor_def namesList_def DuplicateNameError_def Let_def)

lemma dtor_cases:
  "ControlManifold_dtor m u =
     (if name_m m \<in> u then (None, u - {name_m m}) else (Some (UnknownNameError (name_m m)), u))"
  by (simp add: ControlManifold_dtor_def namesList_def UnknownNameError_def)

lemma setName_cases:
  "setName name m u =
     (if name_m m = name then (None, m, u)
      else if name_m m \<notin> u then (Some (UnknownNameError (name_m m)), m, u)
      else if name \<in> u then (Some (DuplicateNameError name), m, u)
      else (None, m\<lparr>name_m := name\<rparr>, insert name (u - {name_m m})))"
  by (auto simp add: setName_def namesList_replace)

subsection \<open>The invariant of the registry\<close>

lemma registry_inv_init: "registry_inv init"
  by (simp add: registry_inv_def init_def)

lemma inv_usedI: "registry_inv w \<Longrightarrow> live w a = Some m \<Longrightarrow> name_m m \<in> used w"
  unfolding registry_inv_def by blast

lemma inv_usedD: "registry_inv w \<Longrightarrow> n \<in> used w \<Longrightarrow> \<exists>a m. live w a = Some m \<and> name_m m = n"
  unfolding registry_inv_def by blast

lemma inv_inj:
  "registry_inv w \<Longrightarrow> live w a = Some m \<Longrightarrow> live w b = Some m' \<Longrightarrow> name_m m = name_m m' \<Longrightarrow> a = b"
  unfolding registry_inv_def by blast

lemma registry_invI:
  assumes "\<And>a m. l a = Some m \<Longrightarrow> name_m m \<in> u"
    and "\<And>n. n \<in> u \<Longrightarrow> \<exists>a m. l a = Some m \<and> name_m m = n"
    and "\<And>a b m m'. l a = Some m \<Longrightarrow> l b = Some m' \<Longrightarrow> name_m m = name_m m' \<Longrightarrow> a = b"
  shows "registry_inv \<lparr>used = u, live = l\<rparr>"
  unfolding registry_inv_def using assms by (simp, blast)

lemma world_eq: "w\<lparr>used := u, live := l\<rparr> = \<lparr>used = u, live = l\<rparr>"
  by simp

lemma inv_insert:
  assumes inv: "registry_inv w" and a: "live w a = None" and n: "name_m m \<notin> used w"
  shows "registry_inv (w\<lparr>used := insert (name_m m) (used w), live := (live w)(a \<mapsto> m)\<rparr>)"
  unfolding world_eq
proof (rule registry_invI)
  fix b m' assume "((live w)(a \<mapsto> m)) b = Some m'"
  then show "name_m m' \<in> insert (name_m m) (used w)"
    using inv_usedI [OF inv] by (cases "b = a") auto
next
  fix k assume "k \<in> insert (name_m m) (used w)"
  then consider "k = name_m m" | "k \<in> used w" by blast
  then show "\<exists>b m'. ((live w)(a \<mapsto> m)) b = Some m' \<and> name_m m' = k"
  proof cases
    case 1
    then have "((live w)(a \<mapsto> m)) a = Some m \<and> name_m m = k" by simp
    then show ?thesis by blast
  next
    case 2
    from inv_usedD [OF inv 2] obtain b m' where b: "live w b = Some m'" "name_m m' = k" by blast
    with a have "b \<noteq> a" by auto
    with b have "((live w)(a \<mapsto> m)) b = Some m' \<and> name_m m' = k" by simp
    then show ?thesis by blast
  qed
next
  fix b c m1 m2
  assume b: "((live w)(a \<mapsto> m)) b = Some m1" and c: "((live w)(a \<mapsto> m)) c = Some m2"
    and e: "name_m m1 = name_m m2"
  show "b = c"
  proof (cases "b = a")
    case True
    with b have m1: "m1 = m" by simp
    show ?thesis
    proof (cases "c = a")
      case True with \<open>b = a\<close> show ?thesis by simp
    next
      case False
      with c have "live w c = Some m2" by simp
      from inv_usedI [OF inv this] e m1 n show ?thesis by simp
    qed
  next
    case False
    with b have lb: "live w b = Some m1" by simp
    show ?thesis
    proof (cases "c = a")
      case True
      with c have "m2 = m" by simp
      with inv_usedI [OF inv lb] e n show ?thesis by simp
    next
      case False
      with c have "live w c = Some m2" by simp
      from inv_inj [OF inv lb this e] show ?thesis .
    qed
  qed
qed

lemma inv_remove:
  assumes inv: "registry_inv w" and a: "live w a = Some m"
  shows "registry_inv (w\<lparr>used := used w - {name_m m}, live := (live w)(a := None)\<rparr>)"
  unfolding world_eq
proof (rule registry_invI)
  fix b m' assume "((live w)(a := None)) b = Some m'"
  then have b: "b \<noteq> a" "live w b = Some m'" by (auto split: if_splits)
  from inv_inj [OF inv b(2) a] b(1) have "name_m m' \<noteq> name_m m" by blast
  with inv_usedI [OF inv b(2)] show "name_m m' \<in> used w - {name_m m}" by simp
next
  fix k assume "k \<in> used w - {name_m m}"
  then have k: "k \<in> used w" "k \<noteq> name_m m" by auto
  from inv_usedD [OF inv k(1)] obtain b m' where b: "live w b = Some m'" "name_m m' = k" by blast
  with a k(2) have "b \<noteq> a" by auto
  with b have "((live w)(a := None)) b = Some m' \<and> name_m m' = k" by simp
  then show "\<exists>b m'. ((live w)(a := None)) b = Some m' \<and> name_m m' = k" by blast
next
  fix b c m1 m2
  assume "((live w)(a := None)) b = Some m1" and "((live w)(a := None)) c = Some m2"
    and e: "name_m m1 = name_m m2"
  then have "live w b = Some m1" "live w c = Some m2" by (auto split: if_splits)
  from inv_inj [OF inv this e] show "b = c" .
qed

lemma inv_replace:
  assumes inv: "registry_inv w" and a: "live w a = Some m" and n: "n \<notin> used w"
  shows "registry_inv
    (w\<lparr>used := insert n (used w - {name_m m}), live := (live w)(a \<mapsto> m\<lparr>name_m := n\<rparr>)\<rparr>)"
proof -
  let ?w1 = "w\<lparr>used := used w - {name_m m}, live := (live w)(a := None)\<rparr>"
  have "registry_inv ?w1" by (rule inv_remove [OF inv a])
  moreover have "live ?w1 a = None" by simp
  moreover have "name_m (m\<lparr>name_m := n\<rparr>) \<notin> used ?w1" using n by simp
  ultimately have "registry_inv (?w1\<lparr>used := insert (name_m (m\<lparr>name_m := n\<rparr>)) (used ?w1),
      live := (live ?w1)(a \<mapsto> m\<lparr>name_m := n\<rparr>)\<rparr>)"
    by (rule inv_insert)
  then show ?thesis by simp
qed

lemma world_same: "live w a = Some m \<Longrightarrow> w\<lparr>used := used w, live := (live w)(a \<mapsto> m)\<rparr> = w"
  by (simp add: fun_upd_idem)

lemma registry_inv_exec:
  assumes "registry_inv w"
  shows "registry_inv (exec c w)"
proof (cases c)
  case (Construct a sm z)
  show ?thesis
  proof (cases "live w a")
    case None
    define nm where "nm = ''Control['' @ stateManifoldName sm @ '']''"
    show ?thesis
    proof (cases "nm \<in> used w")
      case True
      with assms Construct None show ?thesis
        by (simp add: ctor_cases Let_def nm_def)
    next
      case False
      with inv_insert [OF assms None, of "\<lparr>stateManifold_m = sm, name_m = nm, statePropagation_m = None, \<dots> = z\<rparr>"]
      show ?thesis using Construct None
        by (simp add: ctor_cases Let_def nm_def)
    qed
  next
    case (Some m)
    with assms Construct show ?thesis by simp
  qed
next
  case (Destroy a)
  show ?thesis
  proof (cases "live w a")
    case None
    with assms Destroy show ?thesis by simp
  next
    case (Some m)
    with inv_remove [OF assms Some] inv_usedI [OF assms Some] Destroy show ?thesis
      by (simp add: dtor_cases)
  qed
next
  case (SetName a n)
  show ?thesis
  proof (cases "live w a")
    case None
    with assms SetName show ?thesis by simp
  next
    case (Some m)
    note u = inv_usedI [OF assms Some]
    show ?thesis
    proof (cases "name_m m = n \<or> n \<in> used w")
      case True
      then have "exec c w = w\<lparr>used := used w, live := (live w)(a \<mapsto> m)\<rparr>"
        using Some SetName u by (auto simp add: setName_cases)
      with assms world_same [OF Some] show ?thesis by simp
    next
      case False
      with inv_replace [OF assms Some, of n] u Some SetName show ?thesis
        by (simp add: setName_cases)
    qed
  qed
qed

lemma registry_inv_fold: "registry_inv w \<Longrightarrow> registry_inv (fold exec cs w)"
  by (induction cs arbitrary: w) (simp_all add: registry_inv_exec)

lemma registry_inv_run: "registry_inv (run cs)"
  unfolding run_def by (rule registry_inv_fold [OF registry_inv_init])

lemma run_example:
  "run example_calls =
     (\<lparr>used = {''X'', ''Control[A]''},
       live = [0 \<mapsto> \<lparr>stateManifold_m = \<lparr>stateManifoldName = ''A''\<rparr>, name_m = ''X'',
                      statePropagation_m = None\<rparr>,
               3 \<mapsto> \<lparr>stateManifold_m = \<lparr>stateManifoldName = ''A''\<rparr>, name_m = ''Control[A]'',
                      statePropagation_m = None\<rparr>]\<rparr>
      :: ('h, 'd, unit) world)"
  apply (simp add: run_def example_calls_def init_def ctor_cases dtor_cases setName_cases Let_def)
  apply (auto simp: fun_eq_iff)
  done

text \<open>
  Claim C1. After every sequence of constructions, destructions and renames, two distinct
  live manifolds report different names, and the registry holds exactly the names of the
  live manifolds. From such a world, a construction that succeeds registers the new
  name, a destruction unregisters the name of the object, and a rename to a free name
  replaces the old name by the new one. (The calls run one after the other; the mutex of
  the registry and interleavings of threads are outside the model.)
\<close>

theorem name_uniqueness:
  fixes w :: "('h, 'd, 'z) world"
  assumes "w = run calls"
  shows "(\<forall>a b m m'. live w a = Some m \<and> live w b = Some m' \<and> a \<noteq> b \<longrightarrow> getName m \<noteq> getName m') \<and>
    (\<forall>n. n \<in> used w \<longleftrightarrow> (\<exists>a m. live w a = Some m \<and> getName m = n)) \<and>
    (\<forall>a sm z. live w a = None \<and> ''Control['' @ stateManifoldName sm @ '']'' \<notin> used w \<longrightarrow>
       used (exec (Construct a sm z) w) = insert (''Control['' @ stateManifoldName sm @ '']'') (used w) \<and>
       (\<exists>m. live (exec (Construct a sm z) w) a = Some m \<and>
            getName m = ''Control['' @ stateManifoldName sm @ '']'')) \<and>
    (\<forall>a m. live w a = Some m \<longrightarrow>
       used (exec (Destroy a) w) = used w - {getName m} \<and> live (exec (Destroy a) w) a = None) \<and>
    (\<forall>a m n. live w a = Some m \<and> n \<notin> used w \<longrightarrow>
       used (exec (SetName a n) w) = insert n (used w - {getName m}) \<and>
       live (exec (SetName a n) w) a = Some (m\<lparr>name_m := n\<rparr>))"
proof -
  have inv: "registry_inv w" using assms by (simp add: registry_inv_run)
  have 1: "\<forall>a b m m'. live w a = Some m \<and> live w b = Some m' \<and> a \<noteq> b \<longrightarrow> getName m \<noteq> getName m'"
    using inv_inj [OF inv] unfolding getName_def by blast
  have 2: "\<forall>n. n \<in> used w \<longleftrightarrow> (\<exists>a m. live w a = Some m \<and> getName m = n)"
    using inv unfolding registry_inv_def getName_def by blast
  have 3: "\<forall>a sm z. live w a = None \<and> ''Control['' @ stateManifoldName sm @ '']'' \<notin> used w \<longrightarrow>
       used (exec (Construct a sm z) w) = insert (''Control['' @ stateManifoldName sm @ '']'') (used w) \<and>
       (\<exists>m. live (exec (Construct a sm z) w) a = Some m \<and>
            getName m = ''Control['' @ stateManifoldName sm @ '']'')"
    by (simp add: ctor_cases Let_def getName_def)
  have 4: "\<forall>a m. live w a = Some m \<longrightarrow>
       used (exec (Destroy a) w) = used w - {getName m} \<and> live (exec (Destroy a) w) a = None"
    using inv_usedI [OF inv] by (simp add: dtor_cases getName_def)
  have 5: "\<forall>a m n. live w a = Some m \<and> n \<notin> used w \<longrightarrow>
       used (exec (SetName a n) w) = insert n (used w - {getName m}) \<and>
       live (exec (SetName a n) w) a = Some (m\<lparr>name_m := n\<rparr>)"
    using inv_usedI [OF inv] by (auto simp add: setName_cases getName_def)
  from 1 2 3 4 5 show ?thesis by blast
qed

theorem name_uniqueness_witness:
  "live (run example_calls :: (unit, unit, unit) world) 0 \<noteq> None \<and>
   live (run example_calls :: (unit, unit, unit) world) 3 \<noteq> None \<and>
   getName (the (live (run example_calls :: (unit, unit, unit) world) 0)) \<noteq>
     getName (the (live (run example_calls :: (unit, unit, unit) world) 3)) \<and>
   used (run example_calls :: (unit, unit, unit) world) = {''X'', ''Control[A]''}"
proof -
  let ?w = "run example_calls :: (unit, unit, unit) world"
  obtain m0 where m0: "live ?w 0 = Some m0" by (simp add: run_example)
  obtain m3 where m3: "live ?w 3 = Some m3" by (simp add: run_example)
  note uniq = name_uniqueness [OF refl, where calls = example_calls, THEN conjunct1, rule_format]
  have "getName m0 \<noteq> getName m3"
    by (rule uniq [where a = 0 and b = 3]) (simp add: m0 m3)
  with m0 m3 show ?thesis by (simp add: run_example)
qed

text \<open>
  Claim C2. A rename with equal names succeeds and changes nothing, also when the name is
  not registered. With different names it fails with \<open>UnknownNameError\<close> when the old
  name is absent, else with \<open>DuplicateNameError\<close> when the new name is present, the
  registry unchanged at both; else the old name is removed and the new one inserted.
  \<open>setName\<close> fails exactly so, leaving the name of the manifold, and sets the name
  when the registry accepts it.
\<close>

theorem rename_semantics:
  "namesList 3 oldName newName u =
     (if oldName = newName then (None, u)
      else if oldName \<notin> u then (Some (UnknownNameError oldName), u)
      else if newName \<in> u then (Some (DuplicateNameError newName), u)
      else (None, insert newName (u - {oldName}))) \<and>
   setName newName m u =
     (if getName m = newName then (None, m, u)
      else if getName m \<notin> u then (Some (UnknownNameError (getName m)), m, u)
      else if newName \<in> u then (Some (DuplicateNameError newName), m, u)
      else (None, m\<lparr>name_m := newName\<rparr>, insert newName (u - {getName m})))"
  by (simp add: namesList_replace setName_cases getName_def)

theorem rename_semantics_witness:
  "namesList 3 ''C'' ''D'' {''B''} = (Some (UnknownNameError ''C''), {''B''}) \<and>
   namesList 3 ''A'' ''B'' {''A'', ''B''} = (Some (DuplicateNameError ''B''), {''A'', ''B''}) \<and>
   namesList 3 ''A'' ''B'' {''A''} = (None, {''B''}) \<and>
   namesList 3 ''C'' ''C'' {''A''} = (None, {''A''})"
  using rename_semantics [THEN conjunct1, of "''C''" "''D''" "{''B''}"]
    rename_semantics [THEN conjunct1, of "''A''" "''B''" "{''A'', ''B''}"]
    rename_semantics [THEN conjunct1, of "''A''" "''B''" "{''A''}"]
    rename_semantics [THEN conjunct1, of "''C''" "''C''" "{''A''}"]
  by auto

text \<open>
  Claim C3. The base \<open>propagate\<close> returns what the stored override returns, whatever
  it is, and throws \<open>UnconfiguredPropagationError\<close>, the store untouched, when none
  is stored; \<open>setPropagationFunction\<close> stores its argument, so that after it
  \<open>propagate\<close> is the function given, and a manifold as constructed has none.
\<close>

theorem base_propagate_dispatch:
  "ControlManifold_propagate m state control duration result h =
     (case statePropagation_m m of
        Some fn \<Rightarrow> fn state control duration result h
      | None \<Rightarrow> (Some UnconfiguredPropagationError, h)) \<and>
   statePropagation_m (setPropagationFunction f m) = f \<and>
   ControlManifold_propagate (setPropagationFunction (Some fn) m) state control duration result h =
     fn state control duration result h \<and>
   ControlManifold_propagate (setPropagationFunction None m) state control duration result h =
     (Some UnconfiguredPropagationError, h) \<and>
   (case fst (ControlManifold_ctor sm z u) of
      Inl e \<Rightarrow> True
    | Inr m' \<Rightarrow> ControlManifold_propagate m' state control duration result h =
        (Some UnconfiguredPropagationError, h))"
  by (simp add: ControlManifold_propagate_def setPropagationFunction_def
      UnconfiguredPropagationError_def ctor_cases Let_def split: option.split)

theorem base_propagate_dispatch_witness:
  "ControlManifold_propagate
     (setPropagationFunction (Some (\<lambda>st c d r h. (None, Suc h)))
        \<lparr>stateManifold_m = \<lparr>stateManifoldName = ''A''\<rparr>, name_m = ''Control[A]'',
          statePropagation_m = None\<rparr>)
     (LeafState 0) (LeafControl 0) () (LeafState 1) (5::nat) = (None, 6) \<and>
   ControlManifold_propagate
     (\<lparr>stateManifold_m = \<lparr>stateManifoldName = ''A''\<rparr>, name_m = ''Control[A]'',
       statePropagation_m = None\<rparr> :: (nat, unit) ControlManifold)
     (LeafState 0) (LeafControl 0) () (LeafState 1) (5::nat) =
     (Some UnconfiguredPropagationError, 5)"
proof -
  let ?m = "\<lparr>stateManifold_m = \<lparr>stateManifoldName = ''A''\<rparr>, name_m = ''Control[A]'',
        statePropagation_m = None\<rparr> :: (nat, unit) ControlManifold"
  note d = base_propagate_dispatch [where m = ?m and state = "LeafState 0"
      and control = "LeafControl 0" and duration = "()" and result = "LeafState 1" and h = 5
      and fn = "\<lambda>st c d r h. (None, Suc h)"]
  from d [THEN conjunct1] d [THEN conjunct2, THEN conjunct2, THEN conjunct1]
  show ?thesis by simp
qed

text \<open>
  Claim C10. A constructor whose default name is free returns a manifold named
  \<open>Control[\<close>state manifold's name\<open>]\<close> and leaves that name registered. In a world
  reached by any run, while a live manifold still has the default name for a state
  manifold's name, a second construction over that name fails with
  \<open>DuplicateNameError\<close>, the registry unchanged; once the first is destroyed, the
  construction succeeds.
\<close>

theorem construction_default_name:
  fixes w :: "('h, 'd, 'z) world"
  assumes "w = run calls"
  shows "(''Control['' @ stateManifoldName sm @ '']'' \<notin> u \<longrightarrow>
      (\<exists>m'. (ControlManifold_ctor sm z u :: (error + ('h, 'd, 'z) ControlManifold_scheme) \<times> string set) =
           (Inr m', insert (''Control['' @ stateManifoldName sm @ '']'') u) \<and>
         getName m' = ''Control['' @ stateManifoldName sm @ '']'')) \<and>
    (live w a = Some m \<and> getName m = ''Control['' @ stateManifoldName sm @ '']'' \<longrightarrow>
      (ControlManifold_ctor sm z (used w) :: (error + ('h, 'd, 'z) ControlManifold_scheme) \<times> string set) =
        (Inl (DuplicateNameError (''Control['' @ stateManifoldName sm @ '']'')), used w) \<and>
      live (exec (Construct b sm z) w) = live w \<and>
      (\<exists>m'. (ControlManifold_ctor sm z (used (exec (Destroy a) w))
            :: (error + ('h, 'd, 'z) ControlManifold_scheme) \<times> string set) =
           (Inr m', insert (''Control['' @ stateManifoldName sm @ '']'') (used (exec (Destroy a) w))) \<and>
         getName m' = ''Control['' @ stateManifoldName sm @ '']''))"
proof -
  let ?n = "''Control['' @ stateManifoldName sm @ '']''"
  have inv: "registry_inv w" using assms by (simp add: registry_inv_run)
  have 1: "?n \<notin> u \<longrightarrow>
      (\<exists>m'. (ControlManifold_ctor sm z u :: (error + ('h, 'd, 'z) ControlManifold_scheme) \<times> string set) =
           (Inr m', insert ?n u) \<and> getName m' = ?n)"
    by (simp add: ctor_cases Let_def getName_def)
  have 2: "(ControlManifold_ctor sm z (used w) :: (error + ('h, 'd, 'z) ControlManifold_scheme) \<times> string set) =
        (Inl (DuplicateNameError ?n), used w) \<and>
      live (exec (Construct b sm z) w) = live w \<and>
      (\<exists>m'. (ControlManifold_ctor sm z (used (exec (Destroy a) w))
            :: (error + ('h, 'd, 'z) ControlManifold_scheme) \<times> string set) =
           (Inr m', insert ?n (used (exec (Destroy a) w))) \<and> getName m' = ?n)"
    if m: "live w a = Some m" and n: "getName m = ?n"
  proof -
    from inv_usedI [OF inv m] n have u: "?n \<in> used w" by (simp add: getName_def)
    have d: "used (exec (Destroy a) w) = used w - {?n}"
      using m n u by (simp add: dtor_cases getName_def)
    have "live (exec (Construct b sm z) w) = live w"
      using u by (cases "live w b") (simp_all add: ctor_cases Let_def)
    then show ?thesis using u d by (simp add: ctor_cases Let_def getName_def)
  qed
  from 1 2 show ?thesis by blast
qed

theorem construction_default_name_witness:
  "live (run example_calls :: (unit, unit, unit) world) 3 =
     Some \<lparr>stateManifold_m = \<lparr>stateManifoldName = ''A''\<rparr>, name_m = ''Control[A]'',
           statePropagation_m = None\<rparr> \<and>
   (ControlManifold_ctor \<lparr>stateManifoldName = ''A''\<rparr> ()
      (used (run example_calls :: (unit, unit, unit) world))
      :: (error + (unit, unit, unit) ControlManifold_scheme) \<times> string set) =
     (Inl (DuplicateNameError ''Control[A]''), {''X'', ''Control[A]''}) \<and>
   fst (ControlManifold_ctor \<lparr>stateManifoldName = ''A''\<rparr> ()
      (used (exec (Destroy 3) (run example_calls :: (unit, unit, unit) world)))
      :: (error + (unit, unit, unit) ControlManifold_scheme) \<times> string set) =
     Inr \<lparr>stateManifold_m = \<lparr>stateManifoldName = ''A''\<rparr>, name_m = ''Control[A]'',
          statePropagation_m = None\<rparr>"
  using construction_default_name [OF refl, where calls = example_calls
      and sm = "\<lparr>stateManifoldName = ''A''\<rparr>" and u = "{}" and a = 3 and b = 0 and z = "()"
      and m = "\<lparr>stateManifold_m = \<lparr>stateManifoldName = ''A''\<rparr>, name_m = ''Control[A]'',
         statePropagation_m = None\<rparr>"]
  by (simp add: run_example getName_def ctor_cases dtor_cases Let_def)

section \<open>Properties of the compound manifold\<close>

subsection \<open>The example manifolds\<close>

lemma leaf_simps:
  "v_allocControl (leaf n r) h =
     (Inr (LeafControl (brk h)), h\<lparr>brk := brk h + n, allocated := insert (brk h) (allocated h)\<rparr>)"
  "v_freeControl (leaf n r) (LeafControl a) h = h\<lparr>allocated := allocated h - {a}\<rparr>"
  "v_copyControl (leaf n r) (LeafControl a) (LeafControl b) h =
     h\<lparr>cell := (\<lambda>x. if a \<le> x \<and> x < a + n then cell h (b + (x - a)) else cell h x)\<rparr>"
  "v_equalControls (leaf n r) (LeafControl a) (LeafControl b) h =
     list_all (\<lambda>j. cell h (a + j) = cell h (b + j)) [0..<n]"
  "v_propagate (leaf n r) (LeafState s) (LeafControl a) d (LeafState t) h =
     (None, h\<lparr>cell := (cell h)(t := cell h s + d * cell h a)\<rparr>)"
  "v_canPropagateBackward (leaf n r) h = r"
  "v_getValueAddressAtIndex (leaf n r) (LeafControl a) j h = (if j < n then Some (a + j) else None)"
  by (simp_all add: leaf_def)

lemma failing_leaf_simps:
  "v_allocControl failing_leaf h = (Inl (Exception ''std::bad_alloc''), h)"
  "v_freeControl failing_leaf (LeafControl a) h = h\<lparr>allocated := allocated h - {a}\<rparr>"
  by (simp_all add: failing_leaf_def leaf_def)

lemma compound_of_simps:
  "components_m (compound_of cs) = cs"
  "componentCount_m (compound_of cs) = length cs"
  "statePropagation_m (compound_of cs) = None"
  by (simp_all add: compound_of_def)

subsection \<open>Locking\<close>

lemma compound_exec_locked:
  assumes "locked_m (fst s)"
  shows "locked_m (fst (compound_exec c s)) \<and>
    components_m (fst (compound_exec c s)) = components_m (fst s) \<and>
    componentCount_m (fst (compound_exec c s)) = componentCount_m (fst s)"
proof (cases s)
  case (Pair m u)
  with assms show ?thesis
    by (cases c)
      (simp_all add: addSubManifold_def lock_def setPropagationFunction_def setName_def
        split: prod.split option.split)
qed

lemma compound_fold_locked:
  "locked_m (fst s) \<Longrightarrow>
   locked_m (fst (fold compound_exec cs s)) \<and>
   components_m (fst (fold compound_exec cs s)) = components_m (fst s) \<and>
   componentCount_m (fst (fold compound_exec cs s)) = componentCount_m (fst s)"
proof (induction cs arbitrary: s)
  case Nil
  then show ?case by simp
next
  case (Cons c cs)
  from compound_exec_locked [OF Cons.prems, of c] Cons.IH [of "compound_exec c s"]
  show ?case by simp
qed

text \<open>
  Claim C7. After \<open>lock\<close>, whatever calls follow (further additions, locks, renames,
  changes of the override), the manifold stays locked, its child list and
  \<open>getSubManifoldCount\<close> are those it had at the lock, and \<open>addSubManifold\<close> throws
  \<open>LockedManifoldError\<close> and leaves the manifold as it is. No call unlocks.
\<close>

theorem lock_monotonicity:
  "locked_m (fst (fold compound_exec calls (lock m, u))) \<and>
   getSubManifoldCount (fst (fold compound_exec calls (lock m, u))) = getSubManifoldCount m \<and>
   components_m (fst (fold compound_exec calls (lock m, u))) = components_m m \<and>
   addSubManifold component (fst (fold compound_exec calls (lock m, u))) =
     (Some LockedManifoldError, fst (fold compound_exec calls (lock m, u)))"
  using compound_fold_locked [of "(lock m, u)" calls]
  by (simp add: lock_def getSubManifoldCount_def addSubManifold_def LockedManifoldError_def)

theorem lock_monotonicity_witness:
  "getSubManifoldCount (fst (fold compound_exec
      [AddSubManifold (leaf 1 True), Rename ''Y'', AddSubManifold failing_leaf]
      (lock (compound_of [leaf 3 True]), {''Control[S]''}))) = 1 \<and>
   fst (addSubManifold (leaf 1 True) (fst (fold compound_exec
      [AddSubManifold (leaf 1 True), Rename ''Y'', AddSubManifold failing_leaf]
      (lock (compound_of [leaf 3 True]), {''Control[S]''})))) = Some LockedManifoldError"
  using lock_monotonicity [of "[AddSubManifold (leaf 1 True), Rename ''Y'', AddSubManifold failing_leaf]"
      "compound_of [leaf 3 True]" "{''Control[S]''}" "leaf 1 True"]
  by (simp add: getSubManifoldCount_def compound_of_def)

subsection \<open>Backward propagation\<close>

lemma canPropagateBackward_loop_iff:
  "canPropagateBackward_loop m i h \<longleftrightarrow>
     list_all (\<lambda>j. v_canPropagateBackward (components_m m ! j) h) [i..<componentCount_m m]"
proof (induction m i h rule: canPropagateBackward_loop.induct)
  case (1 m i h)
  show ?case
  proof (cases "i < componentCount_m m")
    case False
    then show ?thesis by (simp add: canPropagateBackward_loop.simps [of m i h])
  next
    case True
    with "1.IH" show ?thesis
      by (simp add: canPropagateBackward_loop.simps [of m i h] upt_conv_Cons)
  qed
qed

text \<open>
  Claim C8. \<open>canPropagateBackward\<close> of a compound manifold, asked in a store \<open>h\<close>,
  is true exactly when every child answers true in that store; one child that answers
  false makes it false. The base manifold answers true.
\<close>

theorem backward_capability:
  "(canPropagateBackward m h \<longleftrightarrow>
      (\<forall>i<componentCount_m m. v_canPropagateBackward (components_m m ! i) h)) \<and>
   (i < componentCount_m m \<and> \<not> v_canPropagateBackward (components_m m ! i) h \<longrightarrow>
      \<not> canPropagateBackward m h) \<and>
   ControlManifold_canPropagateBackward b = True"
  by (auto simp add: canPropagateBackward_def canPropagateBackward_loop_iff
      ControlManifold_canPropagateBackward_def list_all_iff)

theorem backward_capability_witness:
  "(1::nat) < componentCount_m (compound_of [leaf 1 True, leaf 2 False, leaf 1 True]) \<and>
   \<not> v_canPropagateBackward (components_m (compound_of [leaf 1 True, leaf 2 False, leaf 1 True]) ! 1) store0 \<and>
   \<not> canPropagateBackward (compound_of [leaf 1 True, leaf 2 False, leaf 1 True]) store0 \<and>
   canPropagateBackward (compound_of [leaf 1 True, leaf 2 True]) store0"
proof -
  let ?m = "compound_of [leaf 1 True, leaf 2 False, leaf 1 True]"
  have a: "(1::nat) < componentCount_m ?m \<and> \<not> v_canPropagateBackward (components_m ?m ! 1) store0"
    by (simp add: compound_of_simps leaf_simps)
  with backward_capability [of ?m store0 1] have "\<not> canPropagateBackward ?m store0" by blast
  moreover have "canPropagateBackward (compound_of [leaf 1 True, leaf 2 True]) store0"
    by (simp add: canPropagateBackward_def canPropagateBackward_loop.simps compound_of_simps
        leaf_simps)
  ultimately show ?thesis using a by simp
qed

subsection \<open>Propagation\<close>

lemma fold_propagate_error:
  "fold (\<lambda>i (r, h'). case r of Some e \<Rightarrow> (Some e, h') | None \<Rightarrow> f i h') is (Some e, h) = (Some e, h)"
  by (induction "is") simp_all

lemma propagate_loop_fold:
  "propagate_loop m state control duration result i h =
     fold (\<lambda>i (r, h').
            case r of
              Some e \<Rightarrow> (Some e, h')
            | None \<Rightarrow>
                v_propagate (components_m m ! i) (state_components state ! i)
                  (components control ! i) duration (state_components result ! i) h')
       [i..<componentCount_m m] (None, h)"
proof (induction m state control duration result i h rule: propagate_loop.induct)
  case (1 m state control duration result i h)
  show ?case
  proof (cases "i < componentCount_m m")
    case False
    then show ?thesis by (simp add: propagate_loop.simps [of m state control duration result i h])
  next
    case True
    obtain r h' where step: "v_propagate (components_m m ! i) (state_components state ! i)
        (components control ! i) duration (state_components result ! i) h = (r, h')"
      by (cases "v_propagate (components_m m ! i) (state_components state ! i)
        (components control ! i) duration (state_components result ! i) h")
    show ?thesis
    proof (cases r)
      case None
      with "1.IH" step True show ?thesis
        by (simp add: propagate_loop.simps [of m state control duration result i h]
            upt_conv_Cons)
    next
      case (Some e)
      with step True show ?thesis
        by (simp add: propagate_loop.simps [of m state control duration result i h]
            upt_conv_Cons fold_propagate_error)
    qed
  qed
qed

text \<open>
  Claim C4. With an override the compound \<open>propagate\<close> is the override's result and
  the children are not consulted; without one it propagates the \<open>i\<close>-th sub-state,
  sub-control and sub-result through \<open>children[i]\<close> for \<open>i\<close> from 0 in order, ending at
  the first child that throws.
\<close>

theorem compound_propagate:
  "propagate m state control duration result h =
     (case statePropagation_m m of
        Some fn \<Rightarrow> fn state control duration result h
      | None \<Rightarrow> propagate_in_order m state control duration result h) \<and>
   propagate (setPropagationFunction (Some fn) m) state control duration result h =
     fn state control duration result h"
  by (simp add: propagate_def propagate_in_order_def propagate_loop_fold
      setPropagationFunction_def split: option.split)

theorem compound_propagate_witness:
  "propagate example_compound (CompoundState [LeafState 10, LeafState 11]) example_source 2
      (CompoundState [LeafState 12, LeafState 13]) example_store =
     propagate_in_order example_compound (CompoundState [LeafState 10, LeafState 11])
       example_source 2 (CompoundState [LeafState 12, LeafState 13]) example_store \<and>
   fst (propagate example_compound (CompoundState [LeafState 10, LeafState 11]) example_source 2
      (CompoundState [LeafState 12, LeafState 13]) example_store) = None \<and>
   cell (snd (propagate example_compound (CompoundState [LeafState 10, LeafState 11])
      example_source 2 (CompoundState [LeafState 12, LeafState 13]) example_store)) 12 = 10 \<and>
   cell (snd (propagate example_compound (CompoundState [LeafState 10, LeafState 11])
      example_source 2 (CompoundState [LeafState 12, LeafState 13]) example_store)) 13 = 14 \<and>
   propagate (setPropagationFunction (Some (\<lambda>st c d r h. (None, store0))) example_compound)
      (CompoundState [LeafState 10, LeafState 11]) example_source 2
      (CompoundState [LeafState 12, LeafState 13]) example_store = (None, store0)"
proof -
  have "[0..<componentCount_m example_compound] = [0, Suc 0]"
    by (simp add: example_compound_def compound_of_simps upt_conv_Cons)
  then have "propagate_in_order example_compound (CompoundState [LeafState 10, LeafState 11])
       example_source 2 (CompoundState [LeafState 12, LeafState 13]) example_store =
     (None, example_store\<lparr>cell := (cell example_store)(12 := 10, 13 := 14)\<rparr>)"
    by (simp add: propagate_in_order_def example_compound_def compound_of_simps
        example_source_def leaf_simps example_store_def)
  moreover have "statePropagation_m example_compound = None"
    by (simp add: example_compound_def compound_of_simps)
  ultimately show ?thesis
    using compound_propagate [of example_compound "CompoundState [LeafState 10, LeafState 11]"
        example_source 2 "CompoundState [LeafState 12, LeafState 13]" example_store
        "\<lambda>st c d r h. (None, store0)"]
    by simp
qed

subsection \<open>Copy and equality\<close>

lemma equalControls_loop_iff:
  "equalControls_loop m c1 c2 i h \<longleftrightarrow>
     list_all (\<lambda>j. v_equalControls (components_m m ! j) (components c1 ! j) (components c2 ! j) h)
       [i..<componentCount_m m]"
proof (induction m c1 c2 i h rule: equalControls_loop.induct)
  case (1 m c1 c2 i h)
  show ?case
  proof (cases "i < componentCount_m m")
    case False
    then show ?thesis by (simp add: equalControls_loop.simps [of m c1 c2 i h])
  next
    case True
    with "1.IH" show ?thesis
      by (simp add: equalControls_loop.simps [of m c1 c2 i h] upt_conv_Cons)
  qed
qed

lemma equalControls_iff:
  "equalControls m c1 c2 h \<longleftrightarrow>
     (\<forall>i<componentCount_m m.
        v_equalControls (components_m m ! i) (components c1 ! i) (components c2 ! i) h)"
  by (auto simp add: equalControls_def equalControls_loop_iff list_all_iff)

lemma copyControl_loop_equal:
  assumes rt: "\<And>j h'. j < componentCount_m m \<Longrightarrow>
      v_equalControls (components_m m ! j) (components d ! j) (components s ! j)
        (v_copyControl (components_m m ! j) (components d ! j) (components s ! j) h')"
    and fr: "\<And>j l h'. j < l \<Longrightarrow> l < componentCount_m m \<Longrightarrow>
      v_equalControls (components_m m ! j) (components d ! j) (components s ! j) h' \<Longrightarrow>
      v_equalControls (components_m m ! j) (components d ! j) (components s ! j)
        (v_copyControl (components_m m ! l) (components d ! l) (components s ! l) h')"
  shows "\<forall>j<i. v_equalControls (components_m m ! j) (components d ! j) (components s ! j) h \<Longrightarrow>
    \<forall>j<componentCount_m m.
      v_equalControls (components_m m ! j) (components d ! j) (components s ! j)
        (copyControl_loop m d s i h)"
proof (induction "componentCount_m m - i" arbitrary: i h)
  case 0
  then show ?case by (simp add: copyControl_loop.simps [of m d s i h])
next
  case (Suc n)
  then have i: "i < componentCount_m m" by simp
  let ?h = "v_copyControl (components_m m ! i) (components d ! i) (components s ! i) h"
  have "\<forall>j<i + 1. v_equalControls (components_m m ! j) (components d ! j) (components s ! j) ?h"
  proof (intro allI impI)
    fix j assume "j < i + 1"
    then consider "j < i" | "j = i" by linarith
    then show "v_equalControls (components_m m ! j) (components d ! j) (components s ! j) ?h"
    proof cases
      case 1
      with Suc.prems fr [OF 1 i] show ?thesis by blast
    next
      case 2
      with rt [OF i] show ?thesis by simp
    qed
  qed
  moreover from Suc.hyps(2) have "n = componentCount_m m - (i + 1)" by simp
  ultimately have "\<forall>j<componentCount_m m.
      v_equalControls (components_m m ! j) (components d ! j) (components s ! j)
        (copyControl_loop m d s (i + 1) ?h)"
    using Suc.hyps(1) by blast
  with i show ?case by (simp add: copyControl_loop.simps [of m d s i h])
qed

text \<open>
  Claim C9. Let each child satisfy the round trip on its slot of \<open>c2\<close> and \<open>c\<close>
  (after its \<open>copyControl\<close> its \<open>equalControls\<close> holds), and let the controls be shaped
  as the child list, each slot a control of its own: the copy of a later slot leaves the
  equality of an earlier slot as it is. Then after \<open>copyControl(c2, c)\<close> the compound
  \<open>equalControls(c2, c)\<close> is true. In any store \<open>equalControls\<close> is true exactly when
  every child's is, so a slot on which the child's \<open>equalControls\<close> is false (a slot of
  \<open>c\<close> changed after the copy) makes it false.
\<close>

theorem copy_equal_roundtrip:
  assumes "\<forall>i<componentCount_m m. \<forall>h'.
      v_equalControls (components_m m ! i) (components c2 ! i) (components c ! i)
        (v_copyControl (components_m m ! i) (components c2 ! i) (components c ! i) h')"
    and "\<forall>i<componentCount_m m. \<forall>j<componentCount_m m. \<forall>h'. i < j \<and>
      v_equalControls (components_m m ! i) (components c2 ! i) (components c ! i) h' \<longrightarrow>
      v_equalControls (components_m m ! i) (components c2 ! i) (components c ! i)
        (v_copyControl (components_m m ! j) (components c2 ! j) (components c ! j) h')"
  shows "equalControls m c2 c (copyControl m c2 c h) \<and>
    (equalControls m c2 c h2 \<longleftrightarrow>
       (\<forall>i<componentCount_m m.
          v_equalControls (components_m m ! i) (components c2 ! i) (components c ! i) h2)) \<and>
    (i < componentCount_m m \<and>
     \<not> v_equalControls (components_m m ! i) (components c2 ! i) (components c ! i) h2 \<longrightarrow>
     \<not> equalControls m c2 c h2)"
proof -
  have "\<forall>j<componentCount_m m.
      v_equalControls (components_m m ! j) (components c2 ! j) (components c ! j)
        (copyControl_loop m c2 c 0 h)"
  proof (rule copyControl_loop_equal)
    fix j h' assume "j < componentCount_m m"
    with assms(1) show "v_equalControls (components_m m ! j) (components c2 ! j) (components c ! j)
        (v_copyControl (components_m m ! j) (components c2 ! j) (components c ! j) h')"
      by blast
  next
    fix j l h'
    assume "j < l" "l < componentCount_m m"
      "v_equalControls (components_m m ! j) (components c2 ! j) (components c ! j) h'"
    moreover from this have "j < componentCount_m m" by simp
    ultimately show "v_equalControls (components_m m ! j) (components c2 ! j) (components c ! j)
        (v_copyControl (components_m m ! l) (components c2 ! l) (components c ! l) h')"
      using assms(2) by blast
  qed simp
  then have "equalControls m c2 c (copyControl m c2 c h)"
    by (simp add: equalControls_iff copyControl_def)
  then show ?thesis by (auto simp add: equalControls_iff)
qed

lemma example_rt:
  "\<forall>i<componentCount_m example_compound. \<forall>h'.
      v_equalControls (components_m example_compound ! i)
        (components example_destination ! i) (components example_source ! i)
        (v_copyControl (components_m example_compound ! i)
          (components example_destination ! i) (components example_source ! i) h')"
  by (auto simp add: example_compound_def compound_of_simps example_destination_def
      example_source_def leaf_simps less_Suc_eq numeral_2_eq_2)

lemma example_frame:
  "\<forall>i<componentCount_m example_compound. \<forall>j<componentCount_m example_compound. \<forall>h'. i < j \<and>
      v_equalControls (components_m example_compound ! i)
        (components example_destination ! i) (components example_source ! i) h' \<longrightarrow>
      v_equalControls (components_m example_compound ! i)
        (components example_destination ! i) (components example_source ! i)
        (v_copyControl (components_m example_compound ! j)
          (components example_destination ! j) (components example_source ! j) h')"
  by (auto simp add: example_compound_def compound_of_simps example_destination_def
      example_source_def leaf_simps less_Suc_eq numeral_2_eq_2)

lemma example_copy:
  "cell (copyControl example_compound example_destination example_source example_store) 3 = 5"
  "cell (copyControl example_compound example_destination example_source example_store) 4 = 7"
  "cell (copyControl example_compound example_destination example_source example_store) 5 = 9"
  by (simp_all add: example_compound_def compound_of_simps example_destination_def
      example_source_def leaf_simps example_store_def copyControl_def copyControl_loop.simps)

theorem copy_equal_roundtrip_witness:
  "equalControls example_compound example_destination example_source
     (copyControl example_compound example_destination example_source example_store) \<and>
   \<not> equalControls example_compound example_destination example_source
     ((copyControl example_compound example_destination example_source example_store)
        \<lparr>cell := (cell (copyControl example_compound example_destination example_source
            example_store))(2 := 8)\<rparr>)"
proof -
  let ?h = "copyControl example_compound example_destination example_source example_store"
  note rt = copy_equal_roundtrip [OF example_rt example_frame]
  have "(1::nat) < componentCount_m example_compound \<and>
     \<not> v_equalControls (components_m example_compound ! 1)
        (components example_destination ! 1) (components example_source ! 1)
        (?h\<lparr>cell := (cell ?h)(2 := 8)\<rparr>)"
    by (simp add: example_compound_def compound_of_simps example_destination_def example_source_def
      leaf_simps example_store_def copyControl_def copyControl_loop.simps numeral_2_eq_2)
  with rt [of example_store "?h\<lparr>cell := (cell ?h)(2 := 8)\<rparr>" 1] show ?thesis by blast
qed

subsection \<open>Allocation\<close>

lemma allocControl_loop_success:
  assumes ok: "\<forall>j<componentCount_m m. \<exists>c. alloc_slot m h j = Inr c"
  shows "i \<le> componentCount_m m \<Longrightarrow> length comps = componentCount_m m \<Longrightarrow>
    \<forall>j<i. alloc_slot m h j = Inr (comps ! j) \<Longrightarrow>
    \<exists>cs. allocControl_loop m i comps (alloc_store m h i) =
           (Inr (CompoundControl cs), alloc_store m h (componentCount_m m)) \<and>
         length cs = componentCount_m m \<and>
         (\<forall>j<componentCount_m m. alloc_slot m h j = Inr (cs ! j))"
proof (induction "componentCount_m m - i" arbitrary: i comps)
  case 0
  then have "\<not> i < componentCount_m m" by simp
  then have "allocControl_loop m i comps (alloc_store m h i) =
      (Inr (CompoundControl comps), alloc_store m h i)"
    by (subst allocControl_loop.simps) simp
  moreover from 0 have "i = componentCount_m m" by simp
  ultimately show ?case using "0.prems" by auto
next
  case (Suc n)
  then have i: "i < componentCount_m m" by simp
  with ok obtain c where c: "alloc_slot m h i = Inr c" by blast
  obtain r h' where rh: "v_allocControl (components_m m ! i) (alloc_store m h i) = (r, h')"
    by (cases "v_allocControl (components_m m ! i) (alloc_store m h i)")
  with c have r: "r = Inr c" and h': "alloc_store m h (i + 1) = h'"
    by (simp_all add: alloc_slot_def)
  have "\<forall>j<i + 1. alloc_slot m h j = Inr (comps[i := c] ! j)"
  proof (intro allI impI)
    fix j assume "j < i + 1"
    then consider "j < i" | "j = i" by linarith
    then show "alloc_slot m h j = Inr (comps[i := c] ! j)"
    proof cases
      case 1
      with Suc.prems(3) show ?thesis by simp
    next
      case 2
      with c i Suc.prems(2) show ?thesis by simp
    qed
  qed
  moreover from Suc.hyps(2) have "n = componentCount_m m - (i + 1)" by simp
  moreover from i have "i + 1 \<le> componentCount_m m" by simp
  moreover from Suc.prems(2) have "length (comps[i := c]) = componentCount_m m" by simp
  ultimately have "\<exists>cs. allocControl_loop m (i + 1) (comps[i := c]) (alloc_store m h (i + 1)) =
           (Inr (CompoundControl cs), alloc_store m h (componentCount_m m)) \<and>
         length cs = componentCount_m m \<and>
         (\<forall>j<componentCount_m m. alloc_slot m h j = Inr (cs ! j))"
    using Suc.hyps(1) by blast
  moreover from i have "allocControl_loop m i comps (alloc_store m h i) =
      allocControl_loop m (i + 1) (comps[i := c]) (alloc_store m h (i + 1))"
    unfolding h' by (subst allocControl_loop.simps) (simp add: rh r)
  ultimately show ?case by simp
qed

lemma allocControl_loop_failure:
  assumes ok: "\<forall>j<k. \<exists>c. alloc_slot m h j = Inr c"
    and k: "k < componentCount_m m" and e: "alloc_slot m h k = Inl e"
  shows "i \<le> k \<Longrightarrow>
    allocControl_loop m i comps (alloc_store m h i) = (Inl e, alloc_store m h (Suc k))"
proof (induction "k - i" arbitrary: i comps)
  case 0
  then have ik: "i = k" by simp
  obtain r h' where rh: "v_allocControl (components_m m ! k) (alloc_store m h k) = (r, h')"
    by (cases "v_allocControl (components_m m ! k) (alloc_store m h k)")
  with e have r: "r = Inl e" and h': "alloc_store m h (Suc k) = h'"
    by (simp_all add: alloc_slot_def)
  from k have "allocControl_loop m k comps (alloc_store m h k) = (Inl e, alloc_store m h (Suc k))"
    unfolding h' by (subst allocControl_loop.simps) (simp add: rh r)
  with ik show ?case by simp
next
  case (Suc n)
  then have i: "i < k" by simp
  with ok obtain c where c: "alloc_slot m h i = Inr c" by blast
  obtain r h' where rh: "v_allocControl (components_m m ! i) (alloc_store m h i) = (r, h')"
    by (cases "v_allocControl (components_m m ! i) (alloc_store m h i)")
  with c have r: "r = Inr c" and h': "alloc_store m h (i + 1) = h'"
    by (simp_all add: alloc_slot_def)
  from Suc.hyps(2) i have "n = k - (i + 1)" "i + 1 \<le> k" by simp_all
  note ih = Suc.hyps(1) [OF this, of "comps[i := c]"]
  from i k have "allocControl_loop m i comps (alloc_store m h i) =
      allocControl_loop m (i + 1) (comps[i := c]) (alloc_store m h (i + 1))"
    unfolding h' by (subst allocControl_loop.simps) (simp add: rh r)
  with ih show ?case by simp
qed

text \<open>
  Claim C5, as the code has it. When every child allocates, \<open>allocControl\<close> returns a
  compound control of exactly \<open>componentCount_\<close> slots, slot \<open>i\<close> the control that
  \<open>children[i]\<close> allocated. When child \<open>k\<close> is the first to fail, the exception goes to
  the caller at once and the store is the one the \<open>k\<close> allocations and the failed call
  left: nothing is freed.
\<close>

theorem allocControl_no_cleanup:
  "((\<forall>i<componentCount_m m. \<exists>c. alloc_slot m h i = Inr c) \<longrightarrow>
      (\<exists>cs. allocControl m h = (Inr (CompoundControl cs), alloc_store m h (componentCount_m m)) \<and>
         length cs = componentCount_m m \<and>
         (\<forall>i<componentCount_m m. alloc_slot m h i = Inr (cs ! i)))) \<and>
   (k < componentCount_m m \<and> (\<forall>i<k. \<exists>c. alloc_slot m h i = Inr c) \<and> alloc_slot m h k = Inl e \<longrightarrow>
      allocControl m h = (Inl e, alloc_store m h (Suc k)))"
proof (intro conjI impI)
  assume "\<forall>i<componentCount_m m. \<exists>c. alloc_slot m h i = Inr c"
  from allocControl_loop_success [OF this, of 0 "replicate (componentCount_m m) undefined"]
  show "\<exists>cs. allocControl m h = (Inr (CompoundControl cs), alloc_store m h (componentCount_m m)) \<and>
         length cs = componentCount_m m \<and>
         (\<forall>i<componentCount_m m. alloc_slot m h i = Inr (cs ! i))"
    by (simp add: allocControl_def)
next
  assume "k < componentCount_m m \<and> (\<forall>i<k. \<exists>c. alloc_slot m h i = Inr c) \<and> alloc_slot m h k = Inl e"
  then have a: "\<forall>i<k. \<exists>c. alloc_slot m h i = Inr c" "k < componentCount_m m" "alloc_slot m h k = Inl e"
    by blast+
  from allocControl_loop_failure [OF a, of 0 "replicate (componentCount_m m) undefined"]
  show "allocControl m h = (Inl e, alloc_store m h (Suc k))"
    by (simp add: allocControl_def)
qed

lemma leaking_slots:
  "alloc_slot leaking_compound store0 0 = Inr (LeafControl 0)"
  "alloc_slot leaking_compound store0 (Suc 0) = Inl (Exception ''std::bad_alloc'')"
  "alloc_store leaking_compound store0 (Suc 1) = \<lparr>brk = 2, allocated = {0}, cell = (\<lambda>x. 0)\<rparr>"
  "componentCount_m leaking_compound = 2"
  by (simp_all add: alloc_slot_def leaking_compound_def compound_of_simps leaf_simps
      failing_leaf_simps store0_def)

lemma example_slots:
  "alloc_slot example_compound store0 0 = Inr (LeafControl 0)"
  "alloc_slot example_compound store0 (Suc 0) = Inr (LeafControl 1)"
  "alloc_store example_compound store0 2 = \<lparr>brk = 3, allocated = {1, 0}, cell = (\<lambda>x. 0)\<rparr>"
  "componentCount_m example_compound = 2"
  by (simp_all add: alloc_slot_def example_compound_def compound_of_simps leaf_simps
      store0_def numeral_2_eq_2)

text \<open>
  Claim C5, as stated, fails: with a leaf and a leaf whose allocation throws, the control
  of slot 0 is still allocated when the exception reaches the caller, where the cleanup
  of the specification would have freed it.
\<close>

theorem allocControl_cleanup_counterexample:
  "alloc_slot leaking_compound store0 0 = Inr (LeafControl 0) \<and>
   alloc_slot leaking_compound store0 1 = Inl (Exception ''std::bad_alloc'') \<and>
   allocControl leaking_compound store0 =
     (Inl (Exception ''std::bad_alloc''), \<lparr>brk = 2, allocated = {0}, cell = (\<lambda>x. 0)\<rparr>) \<and>
   allocControl_cleanup leaking_compound store0 =
     (Inl (Exception ''std::bad_alloc''), \<lparr>brk = 2, allocated = {}, cell = (\<lambda>x. 0)\<rparr>) \<and>
   allocControl leaking_compound store0 \<noteq> allocControl_cleanup leaking_compound store0"
proof -
  have "allocControl leaking_compound store0 =
     (Inl (Exception ''std::bad_alloc''), \<lparr>brk = 2, allocated = {0}, cell = (\<lambda>x. 0)\<rparr>)"
    by (simp add: allocControl_def allocControl_loop.simps
      leaking_compound_def compound_of_simps leaf_simps failing_leaf_simps store0_def)
  moreover have "allocControl_cleanup leaking_compound store0 =
     (Inl (Exception ''std::bad_alloc''), \<lparr>brk = 2, allocated = {}, cell = (\<lambda>x. 0)\<rparr>)"
    by (simp add: allocControl_cleanup_def allocControl_cleanup_loop.simps
      leaking_compound_def compound_of_simps leaf_simps failing_leaf_simps store0_def)
  ultimately show ?thesis by (simp add: leaking_slots)
qed

theorem allocControl_no_cleanup_witness:
  "alloc_slot leaking_compound store0 0 = Inr (LeafControl 0) \<and>
   alloc_slot leaking_compound store0 1 = Inl (Exception ''std::bad_alloc'') \<and>
   allocControl leaking_compound store0 =
     (Inl (Exception ''std::bad_alloc''), \<lparr>brk = 2, allocated = {0}, cell = (\<lambda>x. 0)\<rparr>) \<and>
   alloc_slot example_compound store0 0 = Inr (LeafControl 0) \<and>
   alloc_slot example_compound store0 1 = Inr (LeafControl 1) \<and>
   (\<exists>cs. allocControl example_compound store0 =
       (Inr (CompoundControl cs), \<lparr>brk = 3, allocated = {1, 0}, cell = (\<lambda>x. 0)\<rparr>) \<and>
      length cs = 2 \<and> cs ! 0 = LeafControl 0 \<and> cs ! 1 = LeafControl 1)"
proof -
  have "(1::nat) < componentCount_m leaking_compound \<and>
      (\<forall>i<1. \<exists>c. alloc_slot leaking_compound store0 i = Inr c) \<and>
      alloc_slot leaking_compound store0 1 = Inl (Exception ''std::bad_alloc'')"
    by (simp add: leaking_slots)
  with allocControl_no_cleanup [of leaking_compound store0 1 "Exception ''std::bad_alloc''"]
  have "allocControl leaking_compound store0 =
     (Inl (Exception ''std::bad_alloc''), alloc_store leaking_compound store0 (Suc 1))"
    by blast
  then have 1: "allocControl leaking_compound store0 =
     (Inl (Exception ''std::bad_alloc''), \<lparr>brk = 2, allocated = {0}, cell = (\<lambda>x. 0)\<rparr>)"
    by (simp only: leaking_slots)
  note c = example_slots(4)
  have "\<forall>i<componentCount_m example_compound. \<exists>c. alloc_slot example_compound store0 i = Inr c"
    by (auto simp add: c less_2_cases_iff example_slots)
  with allocControl_no_cleanup [of example_compound store0]
  have "\<exists>cs. allocControl example_compound store0 =
      (Inr (CompoundControl cs), alloc_store example_compound store0 (componentCount_m example_compound)) \<and>
         length cs = componentCount_m example_compound \<and>
         (\<forall>i<componentCount_m example_compound. alloc_slot example_compound store0 i = Inr (cs ! i))"
    by blast
  then obtain cs where cs:
    "allocControl example_compound store0 =
       (Inr (CompoundControl cs), alloc_store example_compound store0 2)"
    "length cs = 2" "\<forall>i<2. alloc_slot example_compound store0 i = Inr (cs ! i)"
    unfolding c by blast
  from cs(3) have "alloc_slot example_compound store0 0 = Inr (cs ! 0)"
    "alloc_slot example_compound store0 (Suc 0) = Inr (cs ! 1)"
    by simp_all
  then have "cs ! 0 = LeafControl 0" "cs ! 1 = LeafControl 1"
    by (simp_all add: example_slots)
  with cs(1,2) have 2: "\<exists>cs. allocControl example_compound store0 =
       (Inr (CompoundControl cs), \<lparr>brk = 3, allocated = {1, 0}, cell = (\<lambda>x. 0)\<rparr>) \<and>
      length cs = 2 \<and> cs ! 0 = LeafControl 0 \<and> cs ! 1 = LeafControl 1"
    by (simp add: example_slots)
  from 1 2 show ?thesis by (simp add: leaking_slots example_slots)
qed

subsection \<open>Value addresses\<close>

lemma inner_count:
  assumes some: "\<forall>j<N. child_slot m control h i j \<noteq> None"
    and none: "child_slot m control h i N = None"
  shows "j \<le> N \<Longrightarrow> j \<le> idx \<Longrightarrow> idx \<le> index \<Longrightarrow>
    getValueAddressAtIndex_inner m control index h i j idx =
      (if index - idx < N - j then Inl (the (child_slot m control h i (j + (index - idx))))
       else Inr (idx + (N - j)))"
proof (induction "N - j" arbitrary: j idx)
  case 0
  then have "j = N" by simp
  with none 0 show ?case
    by (subst getValueAddressAtIndex_inner.simps) (simp add: child_slot_def)
next
  case (Suc d)
  then have j: "j < N" by simp
  with some obtain va where va: "child_slot m control h i j = Some va" by blast
  from Suc.prems have ji: "j \<le> index" by simp
  show ?case
  proof (cases "idx = index")
    case True
    with va ji j show ?thesis
      by (subst getValueAddressAtIndex_inner.simps) (simp add: child_slot_def)
  next
    case False
    with Suc.prems have lt: "idx < index" by simp
    from Suc.hyps(2) j have "d = N - (j + 1)" "j + 1 \<le> N" by simp_all
    moreover from Suc.prems lt have "j + 1 \<le> idx + 1" "idx + 1 \<le> index" by simp_all
    ultimately have ih: "getValueAddressAtIndex_inner m control index h i (j + 1) (idx + 1) =
      (if index - (idx + 1) < N - (j + 1)
       then Inl (the (child_slot m control h i (j + 1 + (index - (idx + 1)))))
       else Inr (idx + 1 + (N - (j + 1))))"
      by (rule Suc.hyps(1))
    from lt have e: "j + 1 + (index - (idx + 1)) = j + (index - idx)" by simp
    have "getValueAddressAtIndex_inner m control index h i j idx =
        getValueAddressAtIndex_inner m control index h i (j + 1) (idx + 1)"
      using va ji False by (subst getValueAddressAtIndex_inner.simps) (simp add: child_slot_def)
    also note ih
    finally show ?thesis unfolding e using lt j by auto
  qed
qed

lemma outer_flat:
  assumes cnt: "\<forall>i<componentCount_m m.
      (\<forall>j<n i. child_slot m control h i j \<noteq> None) \<and> child_slot m control h i (n i) = None"
  shows "idx \<le> index \<Longrightarrow>
    getValueAddressAtIndex_outer m control index h i idx =
      (let xs = concat (map (\<lambda>i. map (child_slot m control h i) [0..<n i]) [i..<componentCount_m m])
       in if index - idx < length xs then xs ! (index - idx) else None)"
proof (induction "componentCount_m m - i" arbitrary: i idx)
  case 0
  then show ?case by (subst getValueAddressAtIndex_outer.simps) simp
next
  case (Suc d)
  then have i: "i < componentCount_m m" by simp
  with cnt have some: "\<forall>j<n i. child_slot m control h i j \<noteq> None"
    and none: "child_slot m control h i (n i) = None" by blast+
  let ?rest = "concat (map (\<lambda>i. map (child_slot m control h i) [0..<n i]) [i + 1..<componentCount_m m])"
  have xs: "concat (map (\<lambda>i. map (child_slot m control h i) [0..<n i]) [i..<componentCount_m m]) =
      map (child_slot m control h i) [0..<n i] @ ?rest"
    using i by (simp add: upt_conv_Cons)
  from inner_count [OF some none, of 0 idx index] Suc.prems
  have inner: "getValueAddressAtIndex_inner m control index h i 0 idx =
      (if index - idx < n i then Inl (the (child_slot m control h i (index - idx)))
       else Inr (idx + n i))"
    by simp
  show ?case
  proof (cases "index - idx < n i")
    case True
    with some obtain va where va: "child_slot m control h i (index - idx) = Some va" by blast
    from True inner i va have "getValueAddressAtIndex_outer m control index h i idx = Some va"
      by (subst getValueAddressAtIndex_outer.simps) simp
    with True va show ?thesis unfolding xs Let_def by (simp add: nth_append)
  next
    case False
    with Suc.prems have le: "idx + n i \<le> index" by simp
    from Suc.hyps(2) have "d = componentCount_m m - (i + 1)" by simp
    from Suc.hyps(1) [OF this le]
    have ih: "getValueAddressAtIndex_outer m control index h (i + 1) (idx + n i) =
        (if index - (idx + n i) < length ?rest then ?rest ! (index - (idx + n i)) else None)"
      by (simp add: Let_def)
    from False inner i have "getValueAddressAtIndex_outer m control index h i idx =
        getValueAddressAtIndex_outer m control index h (i + 1) (idx + n i)"
      by (subst getValueAddressAtIndex_outer.simps) simp
    with ih False le show ?thesis unfolding xs Let_def
      by (auto simp add: nth_append)
  qed
qed

lemma length_flat_slots:
  "length (flat_slots m control h n) = sum_list (map n [0..<componentCount_m m])"
  by (simp add: flat_slots_def length_concat comp_def)

text \<open>
  Claim C6. Let child \<open>i\<close> expose \<open>n i\<close> local slots: it answers the probes
  \<open>0..n i - 1\<close> and reports no slot at \<open>n i\<close>. Then \<open>getValueAddressAtIndex\<close> at a
  flat index is the entry at that index of the children's slots laid out child by child,
  and no slot when the index is at least the total \<open>n 0 + ... + n (k - 1)\<close>. The base
  manifold reports no slot for every control and index.
\<close>

theorem flattened_index_lookup:
  assumes "\<forall>i<componentCount_m m.
      (\<forall>j<n i. child_slot m control h i j \<noteq> None) \<and> child_slot m control h i (n i) = None"
  shows "getValueAddressAtIndex m control index h =
      (if index < length (flat_slots m control h n) then flat_slots m control h n ! index else None) \<and>
    length (flat_slots m control h n) = sum_list (map n [0..<componentCount_m m]) \<and>
    ControlManifold_getValueAddressAtIndex b control' index' = None"
  using outer_flat [OF assms, of 0 index 0]
  by (simp add: getValueAddressAtIndex_def flat_slots_def Let_def length_concat comp_def
      ControlManifold_getValueAddressAtIndex_def)

lemma three_child_slot:
  "child_slot three_leaves three_control h 0 j = (if j < 2 then Some (10 + j) else None)"
  "child_slot three_leaves three_control h (Suc 0) j = None"
  "child_slot three_leaves three_control h (Suc (Suc 0)) j = (if j < 3 then Some (30 + j) else None)"
  by (simp_all add: child_slot_def three_leaves_def three_control_def compound_of_simps leaf_simps)

lemma three_counts_ok:
  "\<forall>i<componentCount_m three_leaves.
      (\<forall>j<three_counts i. child_slot three_leaves three_control store0 i j \<noteq> None) \<and>
      child_slot three_leaves three_control store0 i (three_counts i) = None"
proof -
  have "componentCount_m three_leaves = Suc (Suc (Suc 0))"
    by (simp add: three_leaves_def compound_of_simps)
  then show ?thesis
    by (simp add: less_Suc_eq all_conj_distrib three_child_slot three_counts_def)
qed

lemma three_flat_slots:
  "flat_slots three_leaves three_control store0 three_counts =
     [Some 10, Some 11, Some 30, Some 31, Some 32]"
proof -
  have "[0..<componentCount_m three_leaves] = [0, Suc 0, Suc (Suc 0)]"
    by (simp add: three_leaves_def compound_of_simps upt_conv_Cons)
  moreover have "[0..<2] = [0, Suc 0]" "[0..<3] = [0, Suc 0, Suc (Suc 0)]"
    by (simp_all add: upt_conv_Cons)
  ultimately show ?thesis
    by (simp add: flat_slots_def three_child_slot three_counts_def)
qed

theorem flattened_index_lookup_witness:
  "getValueAddressAtIndex three_leaves three_control 0 store0 = Some 10 \<and>
   getValueAddressAtIndex three_leaves three_control 1 store0 = Some 11 \<and>
   getValueAddressAtIndex three_leaves three_control 2 store0 = Some 30 \<and>
   getValueAddressAtIndex three_leaves three_control 3 store0 = Some 31 \<and>
   getValueAddressAtIndex three_leaves three_control 4 store0 = Some 32 \<and>
   getValueAddressAtIndex three_leaves three_control 5 store0 = None \<and>
   child_slot three_leaves three_control store0 0 0 = Some 10 \<and>
   child_slot three_leaves three_control store0 0 1 = Some 11 \<and>
   child_slot three_leaves three_control store0 2 0 = Some 30 \<and>
   child_slot three_leaves three_control store0 2 1 = Some 31 \<and>
   child_slot three_leaves three_control store0 2 2 = Some 32"
proof -
  note look = flattened_index_lookup [OF three_counts_ok, THEN conjunct1, unfolded three_flat_slots]
  have "child_slot three_leaves three_control store0 0 0 = Some 10 \<and>
   child_slot three_leaves three_control store0 0 1 = Some 11 \<and>
   child_slot three_leaves three_control store0 2 0 = Some 30 \<and>
   child_slot three_leaves three_control store0 2 1 = Some 31 \<and>
   child_slot three_leaves three_control store0 2 2 = Some 32"
    using three_child_slot [of store0] by (simp add: numeral_2_eq_2)
  moreover have "getValueAddressAtIndex three_leaves three_control 0 store0 = Some 10"
    "getValueAddressAtIndex three_leaves three_control 1 store0 = Some 11"
    "getValueAddressAtIndex three_leaves three_control 2 store0 = Some 30"
    "getValueAddressAtIndex three_leaves three_control 3 store0 = Some 31"
    "getValueAddressAtIndex three_leaves three_control 4 store0 = Some 32"
    "getValueAddressAtIndex three_leaves three_control 5 store0 = None"
    by (simp_all add: look)
  ultimately show ?thesis by (simp only: simp_thms)
qed

end
